theory Spec2Isabelle
  imports Complex_Main "HOL-Library.Multiset"
begin

section \<open>The tiled foreground scan of notebook 1-LoadingImages\<close>

text \<open>
  The development embeds the tissue-thresholding cells of
  \<^verbatim>\<open>src/updates/1-LoadingImages.ipynb\<close>: the classifier \<^verbatim>\<open>threshold\<close>, the worker
  \<^verbatim>\<open>process_patch\<close>, the aggregator \<^verbatim>\<open>compile_results\<close>, the scheduling cell that
  builds \<^verbatim>\<open>start_loc_data\<close> and \<^verbatim>\<open>start_loc_list\<close>, and the cell that fills \<^verbatim>\<open>mask\<close>.

  Image dimensions, pixel coordinates, \<^verbatim>\<open>patch_size\<close>, \<^verbatim>\<open>num_chunks\<close> and the integer
  \<^verbatim>\<open>reduction\<close> are counts and sizes; they are natural numbers here, and Python's
  floor division \<^verbatim>\<open>//\<close> on them is \<open>div\<close>. The exceptions the cells can raise are
  values of the type \<open>error\<close>; a computation that may raise returns \<open>error + 'a\<close>.
\<close>

datatype error = ValueError | ZeroDivisionError | ReadError

type_synonym coord = "nat \<times> nat"

text \<open>A decoded tile is a height x width x channels array of integer intensities.\<close>

type_synonym pixels = "int list list list"

subsection \<open>The classifier\<close>

text \<open>\<^verbatim>\<open>arr.flatten()\<close>: the row-major list of all entries.\<close>

definition flatten :: "pixels \<Rightarrow> int list" where
  "flatten arr = concat (concat arr)"

text \<open>
  \<^verbatim>\<open>.var()\<close> is a NumPy library function. It computes the population variance of the
  array in float64 arithmetic and returns a float, or \<^verbatim>\<open>nan\<close> on an empty array. Its value
  can differ from the exact variance by rounding, so it is not computed here: the
  classifier, and every function that calls the classifier, takes it as the parameter
  \<open>np_var\<close>, a function from the flattened array to the float returned, \<open>None\<close> for
  \<^verbatim>\<open>nan\<close>. Finite floats are real numbers.
\<close>

type_synonym variance_fn = "int list \<Rightarrow> real option"

text \<open>
  The exact population variance, the mean of the squared deviations from the mean, and
  undefined on the empty list: what \<^verbatim>\<open>.var()\<close> approximates. NumPy returns exactly this
  value when no step of its computation rounds, as on the tiles of the examples below.
\<close>

definition variance :: "int list \<Rightarrow> real option" where
  "variance xs =
     (if xs = [] then None
      else let n = of_nat (length xs);
               arrmean = of_int (sum_list xs) / n
           in Some (sum_list (map (\<lambda>x. (of_int x - arrmean)\<^sup>2) xs) / n))"

text \<open>
  \<^verbatim>\<open>
  def threshold(arr, threshold_value=80):
      if arr.flatten().var() > threshold_value:
          return True
      else:
          return False
  \<close>
  A comparison with \<^verbatim>\<open>nan\<close> is false.
\<close>

definition threshold :: "variance_fn \<Rightarrow> pixels \<Rightarrow> real \<Rightarrow> bool" where
  "threshold np_var arr threshold_value =
     (case np_var (flatten arr) of
        None \<Rightarrow> False
      | Some v \<Rightarrow> if v > threshold_value then True else False)"

definition default_threshold_value :: real where
  "default_threshold_value = 80"


subsection \<open>The coordinate grid and its chunks\<close>

text \<open>
  \<^verbatim>\<open>range(start, stop, step)\<close> for a non-negative step: \<^verbatim>\<open>ValueError\<close> when the
  step is zero, otherwise \<open>start, start + step, ...\<close> below \<open>stop\<close>, that is
  \<open>\<lceil>(stop - start) / step\<rceil>\<close> elements (none when \<open>stop \<le> start\<close>).
\<close>

definition py_range :: "nat \<Rightarrow> nat \<Rightarrow> nat \<Rightarrow> error + nat list" where
  "py_range start stop step =
     (if step = 0 then Inl ValueError
      else Inr (map (\<lambda>k. start + k * step) [0..<(stop - start + (step - 1)) div step]))"

text \<open>
  \<^verbatim>\<open>
  start_loc_data = [(sx, sy)
                    for sy in range(0, h, patch_size)
                        for sx in range(0, w, patch_size)]
  \<close>
  Both ranges have the same step, so the inner one raises exactly when the outer one does.
\<close>

definition start_loc_data :: "nat \<Rightarrow> nat \<Rightarrow> nat \<Rightarrow> error + coord list" where
  "start_loc_data w h patch_size =
     (case py_range 0 h patch_size of
        Inl e \<Rightarrow> Inl e
      | Inr sys \<Rightarrow>
          (case py_range 0 w patch_size of
             Inl e \<Rightarrow> Inl e
           | Inr sxs \<Rightarrow> Inr (concat (map (\<lambda>sy. map (\<lambda>sx. (sx, sy)) sxs) sys))))"

text \<open>\<^verbatim>\<open>xs[i:j]\<close> for non-negative \<open>i\<close> and \<open>j\<close>; both ends are clipped to the list.\<close>

definition slice :: "'a list \<Rightarrow> nat \<Rightarrow> nat \<Rightarrow> 'a list" where
  "slice xs i j = take (j - i) (drop i xs)"

text \<open>
  \<^verbatim>\<open>
  chunk_size = len(start_loc_data) // num_chunks
  start_loc_list = [start_loc_data[i:i+chunk_size]
                    for i in range(0, len(start_loc_data), chunk_size)]
  \<close>
\<close>

definition chunk_size :: "'a list \<Rightarrow> nat \<Rightarrow> error + nat" where
  "chunk_size data num_chunks =
     (if num_chunks = 0 then Inl ZeroDivisionError else Inr (length data div num_chunks))"

definition start_loc_list :: "'a list \<Rightarrow> nat \<Rightarrow> error + 'a list list" where
  "start_loc_list data num_chunks =
     (case chunk_size data num_chunks of
        Inl e \<Rightarrow> Inl e
      | Inr cs \<Rightarrow>
          (case py_range 0 (length data) cs of
             Inl e \<Rightarrow> Inl e
           | Inr starts \<Rightarrow> Inr (map (\<lambda>i. slice data i (i + cs)) starts)))"

subsection \<open>The worker\<close>

text \<open>
  The slide is opened by every worker from the same file; it is a function from a read
  request (location in level-0 coordinates, size at the requested level, level) to the
  decoded region, or to the error the decoder raises.
\<close>

type_synonym image = "coord \<Rightarrow> nat \<times> nat \<Rightarrow> nat \<Rightarrow> error + pixels"

text \<open>
  \<^verbatim>\<open>reduction = int(wsi.metadata["cucim"]["resolutions"]["level_downsamples"][1])\<close>:
  the level-1 downsample factor of the metadata, a positive number, truncated to an integer.
\<close>

definition reduction :: "real \<Rightarrow> nat" where
  "reduction level_downsample = nat \<lfloor>level_downsample\<rfloor>"

text \<open>What a worker does to the outside world, in order.\<close>

datatype event = ReadRegion coord "nat \<times> nat" nat | Classify pixels

text \<open>
  \<^verbatim>\<open>
  def process_patch(start_loc_list):
      wsi = CuImage(input_file)
      res = []
      for start_loc in start_loc_list:
          region = np.array(wsi.read_region(location=start_loc,
                     size=[patch_size//reduction , patch_size//reduction], level=1))
          if threshold(region):
              res.append((start_loc[0], start_loc[1]))
      return res
  \<close>
  The loop carries the result list and the trace of calls made so far.
\<close>

fun process_loop ::
  "variance_fn \<Rightarrow> image \<Rightarrow> nat \<Rightarrow> nat \<Rightarrow> coord list \<Rightarrow> coord list \<Rightarrow> event list
     \<Rightarrow> event list \<times> (error + coord list)" where
  "process_loop np_var wsi patch_size red [] res tr = (tr, Inr res)"
| "process_loop np_var wsi patch_size red (start_loc # rest) res tr =
     (if red = 0 then (tr, Inl ZeroDivisionError)
      else let sz = (patch_size div red, patch_size div red);
               tr1 = tr @ [ReadRegion start_loc sz 1]
           in case wsi start_loc sz 1 of
                Inl e \<Rightarrow> (tr1, Inl e)
              | Inr region \<Rightarrow>
                  if threshold np_var region default_threshold_value
                  then process_loop np_var wsi patch_size red rest
                         (res @ [(fst start_loc, snd start_loc)]) (tr1 @ [Classify region])
                  else process_loop np_var wsi patch_size red rest res (tr1 @ [Classify region]))"

definition process_patch ::
  "variance_fn \<Rightarrow> image \<Rightarrow> nat \<Rightarrow> nat \<Rightarrow> coord list \<Rightarrow> event list \<times> (error + coord list)" where
  "process_patch np_var wsi patch_size red locs = process_loop np_var wsi patch_size red locs [] []"

subsection \<open>The aggregator\<close>

text \<open>
  \<^verbatim>\<open>
  def compile_results(futures):
      patches = []
      for future in as_completed(futures):
          res1 = future.result()
          if res1:
              for patch in res1:
                  patches.append(patch)
      return patches
  \<close>
  A future holds what its worker returned or the exception it raised; \<^verbatim>\<open>result()\<close>
  re-raises the exception. \<^verbatim>\<open>as_completed\<close> yields every future once, in the order
  in which they finish: \<open>order\<close> lists the positions of the futures in that order.
\<close>

type_synonym 'a future = "error + 'a list"

definition as_completed :: "nat list \<Rightarrow> 'a list \<Rightarrow> 'a list" where
  "as_completed order futures = map (\<lambda>i. futures ! i) order"

definition completion_order :: "nat \<Rightarrow> nat list \<Rightarrow> bool" where
  "completion_order n order = (sort order = [0..<n])"

fun append_all :: "'a list \<Rightarrow> 'a list \<Rightarrow> 'a list" where
  "append_all patches [] = patches"
| "append_all patches (patch # res1) = append_all (patches @ [patch]) res1"

fun compile_loop :: "'a list \<Rightarrow> 'a future list \<Rightarrow> error + 'a list" where
  "compile_loop patches [] = Inr patches"
| "compile_loop patches (future # rest) =
     (case future of
        Inl e \<Rightarrow> Inl e
      | Inr res1 \<Rightarrow>
          if res1 \<noteq> [] then compile_loop (append_all patches res1) rest
          else compile_loop patches rest)"

definition compile_results :: "nat list \<Rightarrow> 'a future list \<Rightarrow> error + 'a list" where
  "compile_results order futures = compile_loop [] (as_completed order futures)"

subsection \<open>The scan\<close>

text \<open>
  \<^verbatim>\<open>
  future_result1 = list(client.map(process_patch, start_loc_list))
  patches = compile_results(future_result1)
  \<close>
  \<open>future_result1\<close> is the list of futures, one per chunk, in chunk order.
\<close>

definition future_result1 ::
  "variance_fn \<Rightarrow> image \<Rightarrow> nat \<Rightarrow> nat \<Rightarrow> nat \<Rightarrow> real \<Rightarrow> nat \<Rightarrow> error + coord future list" where
  "future_result1 np_var wsi w h patch_size level_downsample num_chunks =
     (case start_loc_data w h patch_size of
        Inl e \<Rightarrow> Inl e
      | Inr data \<Rightarrow>
          (case start_loc_list data num_chunks of
             Inl e \<Rightarrow> Inl e
           | Inr chunks \<Rightarrow>
               Inr (map (\<lambda>c. snd (process_patch np_var wsi patch_size (reduction level_downsample) c))
                      chunks)))"

definition scan_patches ::
  "variance_fn \<Rightarrow> image \<Rightarrow> nat \<Rightarrow> nat \<Rightarrow> nat \<Rightarrow> real \<Rightarrow> nat \<Rightarrow> nat list \<Rightarrow> error + coord list" where
  "scan_patches np_var wsi w h patch_size level_downsample num_chunks order =
     (case future_result1 np_var wsi w h patch_size level_downsample num_chunks of
        Inl e \<Rightarrow> Inl e
      | Inr futures \<Rightarrow> compile_results order futures)"

subsection \<open>The mask\<close>

text \<open>A two-dimensional integer array: its shape (rows, columns) and its rows.\<close>

record ndarray =
  shape :: "nat \<times> nat"
  rows :: "int list list"

definition zeros :: "nat \<times> nat \<Rightarrow> ndarray" where
  "zeros s = \<lparr>shape = s, rows = replicate (fst s) (replicate (snd s) 0)\<rparr>"

definition getitem :: "ndarray \<Rightarrow> nat \<Rightarrow> nat \<Rightarrow> int" where
  "getitem a i j = rows a ! i ! j"

definition setitem :: "ndarray \<Rightarrow> nat \<Rightarrow> nat \<Rightarrow> int \<Rightarrow> ndarray" where
  "setitem a i j v = a\<lparr>rows := (rows a)[i := (rows a ! i)[j := v]]\<rparr>"

text \<open>
  \<^verbatim>\<open>
  mask = np.zeros((h//patch_size,w//patch_size),dtype=int)
  for patch in patches:
      j = patch[0]//(patch_size*reduction)
      i = patch[1]//(patch_size*reduction)
      if i< h//patch_size and j < w//patch_size:
          mask[i,j]=1
  \<close>
  Here \<open>w\<close> and \<open>h\<close> are the level-1 dimensions. The assignment is only reached with
  both indices inside the array.
\<close>

fun mask_loop :: "nat \<Rightarrow> nat \<Rightarrow> nat \<Rightarrow> nat \<Rightarrow> coord list \<Rightarrow> ndarray \<Rightarrow> error + ndarray" where
  "mask_loop w h patch_size red [] msk = Inr msk"
| "mask_loop w h patch_size red (patch # patches) msk =
     (if patch_size * red = 0 then Inl ZeroDivisionError
      else let j = fst patch div (patch_size * red);
               i = snd patch div (patch_size * red)
           in if i < h div patch_size \<and> j < w div patch_size
              then mask_loop w h patch_size red patches (setitem msk i j 1)
              else mask_loop w h patch_size red patches msk)"

definition mask_grid :: "nat \<Rightarrow> nat \<Rightarrow> nat \<Rightarrow> real \<Rightarrow> coord list \<Rightarrow> error + ndarray" where
  "mask_grid w h patch_size level_downsample patches =
     (if patch_size = 0 then Inl ZeroDivisionError
      else mask_loop w h patch_size (reduction level_downsample) patches
             (zeros (h div patch_size, w div patch_size)))"

subsection \<open>Notions used in the statements\<close>

text \<open>
  A grid coordinate is foreground when the region the worker reads there is classified as
  tissue; \<open>calls_at\<close> is what one iteration of the worker loop does at a coordinate;
  \<open>read_locations\<close> are the locations of the reads in a trace.
\<close>

definition foreground :: "variance_fn \<Rightarrow> image \<Rightarrow> nat \<Rightarrow> nat \<Rightarrow> coord \<Rightarrow> bool" where
  "foreground np_var wsi patch_size red loc =
     (case wsi loc (patch_size div red, patch_size div red) 1 of
        Inl e \<Rightarrow> False
      | Inr region \<Rightarrow> threshold np_var region default_threshold_value)"

definition calls_at :: "image \<Rightarrow> nat \<Rightarrow> nat \<Rightarrow> coord \<Rightarrow> event list" where
  "calls_at wsi patch_size red loc =
     (let sz = (patch_size div red, patch_size div red)
      in case wsi loc sz 1 of
           Inl e \<Rightarrow> [ReadRegion loc sz 1]
         | Inr region \<Rightarrow> [ReadRegion loc sz 1, Classify region])"

fun read_locations :: "event list \<Rightarrow> coord list" where
  "read_locations [] = []"
| "read_locations (ReadRegion loc sz lv # tr) = loc # read_locations tr"
| "read_locations (Classify region # tr) = read_locations tr"

text \<open>
  An array is well shaped when its rows agree with its shape; \<open>accepted_at\<close> says that
  some accepted tile is projected to cell \<open>(i, j)\<close> by the mask cell's index computation.
\<close>

definition well_shaped :: "ndarray \<Rightarrow> bool" where
  "well_shaped a = (length (rows a) = fst (shape a) \<and> (\<forall>r \<in> set (rows a). length r = snd (shape a)))"

definition accepted_at :: "nat \<Rightarrow> nat \<Rightarrow> coord list \<Rightarrow> nat \<Rightarrow> nat \<Rightarrow> bool" where
  "accepted_at patch_size red patches i j =
     (\<exists>patch \<in> set patches.
        snd patch div (patch_size * red) = i \<and> fst patch div (patch_size * red) = j)"

subsection \<open>Inputs used in the examples\<close>

text \<open>The 7 x 7 grid of a 1000 x 1000 image with \<^verbatim>\<open>patch_size = 164\<close>.\<close>

definition grid_7x7 :: "coord list" where
  "grid_7x7 =
     concat (map (\<lambda>sy. map (\<lambda>sx. (sx, sy)) [0, 164, 328, 492, 656, 820, 984])
               [0, 164, 328, 492, 656, 820, 984])"

text \<open>
  A slide with one row of three tiles, the middle one uniform, the decoded regions cut down
  to two samples; and the three per-chunk results of scanning it with one tile per chunk.
  The variance of the samples 0, 100 is 2500 and that of 7, 7 is 0; float64 arithmetic
  computes both without rounding, so \<open>variance\<close> stands for \<^verbatim>\<open>.var()\<close> on this slide.
\<close>

definition three_tile_slide :: image where
  "three_tile_slide loc sz lv = (if loc = (2, 0) then Inr [[[7, 7]]] else Inr [[[0, 100]]])"

definition three_results :: "coord future list" where
  "three_results = [Inr [(0, 0)], Inr [], Inr [(4, 0)]]"

section \<open>Properties of the classifier\<close>









text \<open>
  The variance in the claim is the one \<^verbatim>\<open>.var()\<close> returns, not the exact one. For the
  tile with the three samples 0, 1, 2 the exact variance is 2/3, and float64 arithmetic
  gives \<^verbatim>\<open>.var()\<close> the value 6004799503160661 / 2^53, the float next below 2/3. With that
  float as the threshold the tile is background, although its exact variance exceeds the
  threshold.
\<close>

lemma threshold_rounded_variance:
  assumes "np_var [0, 1, 2] = Some (6004799503160661 / 9007199254740992)"
  shows "\<not> threshold np_var [[[0, 1, 2]]] (6004799503160661 / 9007199254740992)
       \<and> variance [0, 1, 2] = Some (2 / 3)
       \<and> 6004799503160661 / 9007199254740992 < (2 / 3 :: real)"
  using assms by (simp add: threshold_def flatten_def variance_def)

section \<open>Properties of the grid and of the chunking\<close>

lemma ceil_div_less: "0 < (c::nat) \<Longrightarrow> k < (n + (c - 1)) div c \<longleftrightarrow> k * c < n"
proof -
  assume c: "0 < c"
  have "k < (n + (c - 1)) div c \<longleftrightarrow> (k + 1) * c \<le> n + (c - 1)"
    using c by (simp add: less_eq_div_iff_mult_less_eq Suc_le_eq[symmetric] del: Suc_le_eq)
  also have "\<dots> \<longleftrightarrow> k * c < n" using c by (cases c) auto
  finally show ?thesis .
qed

lemma set_py_range0:
  assumes "py_range 0 stop step = Inr xs"
  shows "set xs = {x. x < stop \<and> step dvd x}" "distinct xs" "0 < step"
    "length xs = (stop + (step - 1)) div step"
proof -
  from assms have s: "0 < step" by (auto simp: py_range_def split: if_splits)
  from assms s have xs: "xs = map (\<lambda>k. k * step) [0..<(stop + (step - 1)) div step]"
    by (simp add: py_range_def)
  show "0 < step" by fact
  show "length xs = (stop + (step - 1)) div step" by (simp add: xs)
  show "distinct xs" using s by (simp add: xs distinct_map inj_on_def)
  show "set xs = {x. x < stop \<and> step dvd x}"
  proof (intro set_eqI iffI)
    fix x assume "x \<in> set xs"
    then have "\<exists>k. x = k * step \<and> k < (stop + (step - 1)) div step"
      by (auto simp: xs)
    then obtain k where "x = k * step" "k < (stop + (step - 1)) div step" by blast
    then show "x \<in> {x. x < stop \<and> step dvd x}" using ceil_div_less[OF s] by simp
  next
    fix x assume "x \<in> {x. x < stop \<and> step dvd x}"
    then obtain k where k: "x = k * step" "x < stop" by (auto simp: dvd_def mult.commute)
    then have "k < (stop + (step - 1)) div step" using ceil_div_less[OF s] by simp
    with k show "x \<in> set xs" by (auto simp: xs)
  qed
qed

lemma start_loc_data_Inr:
  assumes "start_loc_data w h patch_size = Inr data"
  obtains sxs sys where "py_range 0 w patch_size = Inr sxs" "py_range 0 h patch_size = Inr sys"
    "data = concat (map (\<lambda>sy. map (\<lambda>sx. (sx, sy)) sxs) sys)"
  using assms by (auto simp: start_loc_data_def split: sum.splits)

lemma distinct_grid:
  assumes "distinct sxs" "distinct sys"
  shows "distinct (concat (map (\<lambda>sy. map (\<lambda>sx. (sx, sy)) sxs) sys))"
  using assms(2)
proof (induction sys)
  case Nil show ?case by simp
next
  case (Cons y ys)
  then show ?case using assms(1) by (auto simp: distinct_map inj_on_def)
qed

lemma start_loc_data_props:
  assumes "start_loc_data w h patch_size = Inr data"
  shows "set data = {(x, y). x < w \<and> y < h \<and> patch_size dvd x \<and> patch_size dvd y}"
    and "distinct data"
proof -
  from assms obtain sxs sys
    where r: "py_range 0 w patch_size = Inr sxs" "py_range 0 h patch_size = Inr sys"
      and d: "data = concat (map (\<lambda>sy. map (\<lambda>sx. (sx, sy)) sxs) sys)"
    by (rule start_loc_data_Inr)
  show "set data = {(x, y). x < w \<and> y < h \<and> patch_size dvd x \<and> patch_size dvd y}"
    using set_py_range0(1)[OF r(1)] set_py_range0(1)[OF r(2)] by (auto simp: d)
  show "distinct data" unfolding d
    by (rule distinct_grid[OF set_py_range0(2)[OF r(1)] set_py_range0(2)[OF r(2)]])
qed

lemma py_range_1000: "py_range 0 1000 164 = Inr [0, 164, 328, 492, 656, 820, 984]"
  by (simp add: py_range_def upt_rec)

lemma grid_1000: "start_loc_data 1000 1000 164 = Inr grid_7x7"
  by (simp add: start_loc_data_def py_range_1000 grid_7x7_def)

lemma length_grid_7x7: "length grid_7x7 = 49"
  by (simp add: grid_7x7_def)

lemma grid_4_2: "start_loc_data 4 2 2 = Inr [(0, 0), (2, 0)]"
  by (simp add: start_loc_data_def py_range_def upt_rec)

lemma grid_820: "start_loc_data 820 328 164 =
     Inr [(0, 0), (164, 0), (328, 0), (492, 0), (656, 0),
          (0, 164), (164, 164), (328, 164), (492, 164), (656, 164)]"
  by (simp add: start_loc_data_def py_range_def upt_rec)

text \<open>
  Claim C4. When the grid is built, it is the list of all \<open>(sx, sy)\<close> with \<open>sy\<close> in
  \<^verbatim>\<open>range(0, h, patch_size)\<close> (outer loop) and \<open>sx\<close> in \<^verbatim>\<open>range(0, w, patch_size)\<close>:
  exactly the multiples of \<^verbatim>\<open>patch_size\<close> below \<open>w\<close> and \<open>h\<close>, each pair once; it is
  built whenever \<^verbatim>\<open>patch_size\<close> is positive. For a 1000 x 1000 image and patch size 164
  the start positions on each axis are 0, 164, 328, 492, 656, 820, 984, and there are 49
  tiles.
\<close>

theorem start_loc_data_grid:
  "(start_loc_data w h patch_size = Inr data \<longrightarrow>
      (\<exists>sxs sys. py_range 0 w patch_size = Inr sxs \<and> py_range 0 h patch_size = Inr sys
         \<and> data = concat (map (\<lambda>sy. map (\<lambda>sx. (sx, sy)) sxs) sys)
         \<and> set data = set sxs \<times> set sys)
      \<and> set data = {(x, y). x < w \<and> y < h \<and> patch_size dvd x \<and> patch_size dvd y}
      \<and> distinct data)
   \<and> (0 < patch_size \<longrightarrow> (\<exists>grid. start_loc_data w h patch_size = Inr grid))
   \<and> py_range 0 1000 164 = Inr [0, 164, 328, 492, 656, 820, 984]
   \<and> (\<exists>grid. start_loc_data 1000 1000 164 = Inr grid \<and> length grid = 49
         \<and> set (map fst grid) = {0, 164, 328, 492, 656, 820, 984}
         \<and> set (map snd grid) = {0, 164, 328, 492, 656, 820, 984})"
proof (intro conjI impI)
  assume a: "start_loc_data w h patch_size = Inr data"
  then obtain sxs sys
    where r: "py_range 0 w patch_size = Inr sxs" "py_range 0 h patch_size = Inr sys"
      and d: "data = concat (map (\<lambda>sy. map (\<lambda>sx. (sx, sy)) sxs) sys)"
    by (rule start_loc_data_Inr)
  have "set data = set sxs \<times> set sys" by (auto simp: d)
  with r d show "\<exists>sxs sys. py_range 0 w patch_size = Inr sxs \<and> py_range 0 h patch_size = Inr sys
         \<and> data = concat (map (\<lambda>sy. map (\<lambda>sx. (sx, sy)) sxs) sys)
         \<and> set data = set sxs \<times> set sys" by blast
  show "set data = {(x, y). x < w \<and> y < h \<and> patch_size dvd x \<and> patch_size dvd y}"
    by (rule start_loc_data_props(1)[OF a])
  show "distinct data" by (rule start_loc_data_props(2)[OF a])
next
  assume "0 < patch_size"
  then show "\<exists>grid. start_loc_data w h patch_size = Inr grid"
    by (simp add: start_loc_data_def py_range_def)
next
  show "py_range 0 1000 164 = Inr [0, 164, 328, 492, 656, 820, 984]" by (rule py_range_1000)
next
  show "\<exists>grid. start_loc_data 1000 1000 164 = Inr grid \<and> length grid = 49
         \<and> set (map fst grid) = {0, 164, 328, 492, 656, 820, 984}
         \<and> set (map snd grid) = {0, 164, 328, 492, 656, 820, 984}"
    unfolding grid_1000 grid_7x7_def by (rule exI, intro conjI, rule refl) (simp_all, auto)
qed

theorem start_loc_data_grid_witness:
  "0 < (2::nat) \<and> start_loc_data 4 2 2 = Inr [(0, 0), (2, 0)]
   \<and> py_range 0 4 2 = Inr [0, 2] \<and> py_range 0 2 2 = Inr [0]
   \<and> set [(0, 0), (2, 0)] = {(x, y). x < 4 \<and> y < 2 \<and> (2::nat) dvd x \<and> (2::nat) dvd y}
   \<and> distinct [(0::nat, 0::nat), (2, 0)]"
proof -
  have r: "py_range 0 4 2 = Inr [0, 2]" "py_range 0 2 2 = Inr [0]"
    by (simp_all add: py_range_def upt_rec)
  show ?thesis
    using start_loc_data_grid[of 4 2 2 "[(0, 0), (2, 0)]"]
    by (simp add: grid_4_2 r)
qed

subsection \<open>Chunks\<close>

lemma concat_chunks_take:
  "concat (map (\<lambda>k. take c (drop (k * c) xs)) [0..<m]) = take (m * c) xs"
proof (induction m)
  case 0 show ?case by simp
next
  case (Suc m)
  have "take (m * c) xs @ take c (drop (m * c) xs) = take (m * c + c) xs"
    by (simp add: take_add)
  with Suc show ?case by (simp add: add.commute)
qed

lemma start_loc_list_pos:
  assumes "0 < num_chunks" "num_chunks \<le> length data"
  shows "start_loc_list data num_chunks =
     Inr (map (\<lambda>k. take (length data div num_chunks)
                     (drop (k * (length data div num_chunks)) data))
        [0..<(length data + (length data div num_chunks - 1)) div (length data div num_chunks)])"
proof -
  from assms have "0 < length data div num_chunks"
    by (simp add: div_greater_zero_iff)
  then show ?thesis using assms
    by (simp add: start_loc_list_def chunk_size_def py_range_def slice_def comp_def)
qed

lemma start_loc_list_Inr:
  assumes "start_loc_list data num_chunks = Inr chunks"
  shows "0 < num_chunks \<and> num_chunks \<le> length data"
  using assms
  by (auto simp: start_loc_list_def chunk_size_def py_range_def div_greater_zero_iff
      split: if_splits sum.splits)

lemma start_loc_list_chunks:
  assumes "start_loc_list data num_chunks = Inr chunks"
  defines "c \<equiv> length data div num_chunks"
  shows "0 < c"
    and "chunks = map (\<lambda>k. take c (drop (k * c) data)) [0..<(length data + (c - 1)) div c]"
    and "k < length chunks \<Longrightarrow>
           length (chunks ! k) = min c (length data - k * c) \<and> chunks ! k \<noteq> []"
proof -
  from start_loc_list_Inr[OF assms(1)]
  have nc: "0 < num_chunks" "num_chunks \<le> length data" by auto
  then show c: "0 < c" by (simp add: c_def div_greater_zero_iff)
  from assms(1) start_loc_list_pos[OF nc]
  show ch: "chunks = map (\<lambda>k. take c (drop (k * c) data)) [0..<(length data + (c - 1)) div c]"
    by (simp add: c_def)
  assume "k < length chunks"
  then have k: "k < (length data + (c - 1)) div c" by (simp add: ch)
  then have "k * c < length data" using ceil_div_less[OF c] by simp
  moreover from k have "chunks ! k = take c (drop (k * c) data)"
    by (simp add: ch del: One_nat_def)
  ultimately show "length (chunks ! k) = min c (length data - k * c) \<and> chunks ! k \<noteq> []"
    using c by auto
qed

lemma concat_start_loc_list:
  assumes "start_loc_list data num_chunks = Inr chunks"
  shows "concat chunks = data"
proof -
  define c where "c = length data div num_chunks"
  define m where "m = (length data + (c - 1)) div c"
  from start_loc_list_chunks(1)[OF assms] have c: "0 < c" by (simp add: c_def)
  have "\<not> m * c < length data" using ceil_div_less[OF c, of m "length data"] by (simp add: m_def)
  then have "take (m * c) data = data" by simp
  moreover from start_loc_list_chunks(2)[OF assms]
  have "chunks = map (\<lambda>k. take c (drop (k * c) data)) [0..<m]" by (simp add: c_def m_def)
  ultimately show ?thesis by (simp add: concat_chunks_take)
qed

lemma start_loc_list_nonempty:
  assumes "start_loc_list data num_chunks = Inr chunks" "a \<in> set chunks"
  shows "a \<noteq> []"
  using assms start_loc_list_chunks(3)[OF assms(1)] by (auto simp: in_set_conv_nth)

lemma start_loc_list_too_many:
  assumes "length data < num_chunks"
  shows "chunk_size data num_chunks = Inr 0" "start_loc_list data num_chunks = Inl ValueError"
  using assms by (simp_all add: start_loc_list_def chunk_size_def py_range_def)

lemma start_loc_list_49_32:
  assumes "length data = 49"
  shows "\<exists>chunks. start_loc_list data 32 = Inr chunks \<and> map length chunks = replicate 49 1"
proof -
  from assms have "0 < (32::nat)" "32 \<le> length data" by simp_all
  from start_loc_list_pos[OF this] assms
  have ch: "start_loc_list data 32 = Inr (map (\<lambda>k. take 1 (drop k data)) [0..<49])"
    by simp
  have "map length (map (\<lambda>k. take 1 (drop k data)) [0..<49]) = map (\<lambda>k. 1) [0..<49]"
    unfolding map_map by (rule map_cong) (simp_all add: assms)
  also have "\<dots> = replicate 49 1" by (simp add: map_replicate_const)
  finally show ?thesis using ch by simp
qed

text \<open>
  Claim C3 at a 5 x 2 grid (an 820 x 328 image, 10 tiles) split with \<^verbatim>\<open>num_chunks = 3\<close>,
  and at the 7 x 7 grid split with \<^verbatim>\<open>num_chunks = 32\<close>: the cell returns four chunks
  of sizes 3, 3, 3, 1 in the first case and 49 chunks of one tile in the second. The number
  of chunks is not \<^verbatim>\<open>num_chunks\<close>, and the last chunk is the smaller one.
\<close>

theorem start_loc_list_chunk_count:
  "start_loc_data 820 328 164 =
     Inr [(0, 0), (164, 0), (328, 0), (492, 0), (656, 0),
          (0, 164), (164, 164), (328, 164), (492, 164), (656, 164)]
   \<and> start_loc_list [(0, 0), (164, 0), (328, 0), (492, 0), (656, 0),
          (0, 164), (164, 164), (328, 164), (492, 164), (656, 164 :: nat)] 3 =
     Inr [[(0, 0), (164, 0), (328, 0)], [(492, 0), (656, 0), (0, 164)],
          [(164, 164), (328, 164), (492, 164)], [(656, 164)]]
   \<and> start_loc_data 1000 1000 164 = Inr grid_7x7
   \<and> length grid_7x7 = 49
   \<and> map_sum id (map length) (start_loc_list grid_7x7 32) = Inr (replicate 49 1)"
proof -
  have a: "start_loc_list [(0, 0), (164, 0), (328, 0), (492, 0), (656, 0),
          (0, 164), (164, 164), (328, 164), (492, 164), (656, 164 :: nat)] 3 =
     Inr [[(0, 0), (164, 0), (328, 0)], [(492, 0), (656, 0), (0, 164)],
          [(164, 164), (328, 164), (492, 164)], [(656, 164)]]"
    by (simp add: start_loc_list_def chunk_size_def py_range_def slice_def upt_rec)
  from start_loc_list_49_32[OF length_grid_7x7]
  have b: "map_sum id (map length) (start_loc_list grid_7x7 32) = Inr (replicate 49 1)" by auto
  show ?thesis using a b by (simp add: grid_820 grid_1000 length_grid_7x7)
qed

text \<open>
  Claim C8. A tile list of length 49, such as the 7 x 7 grid, split with
  \<^verbatim>\<open>num_chunks = 32\<close>: the chunking returns, its chunks concatenated in chunk order are
  the list, and any two chunk sizes differ by at most 1 (every chunk holds one tile).
\<close>

theorem chunking_49_into_32:
  assumes "length data = 49"
  shows "\<exists>chunks. start_loc_list data 32 = Inr chunks
           \<and> concat chunks = data
           \<and> (\<forall>a \<in> set chunks. \<forall>b \<in> set chunks. length a \<le> length b + 1)
           \<and> map length chunks = replicate 49 1"
proof -
  from start_loc_list_49_32[OF assms] obtain chunks
    where c: "start_loc_list data 32 = Inr chunks" and l: "map length chunks = replicate 49 1"
    by blast
  have "length a = 1" if "a \<in> set chunks" for a
  proof -
    from that have "length a \<in> set (map length chunks)" by simp
    then show ?thesis unfolding l by simp
  qed
  then have "\<forall>a \<in> set chunks. \<forall>b \<in> set chunks. length a \<le> length b + 1" by simp
  with c l concat_start_loc_list[OF c] show ?thesis by blast
qed

theorem chunking_49_into_32_witness:
  "start_loc_data 1000 1000 164 = Inr grid_7x7 \<and> length grid_7x7 = 49
   \<and> (\<exists>chunks. start_loc_list grid_7x7 32 = Inr chunks
           \<and> concat chunks = grid_7x7
           \<and> (\<forall>a \<in> set chunks. \<forall>b \<in> set chunks. length a \<le> length b + 1)
           \<and> map length chunks = replicate 49 1)"
  using chunking_49_into_32[OF length_grid_7x7] by (simp add: grid_1000 length_grid_7x7)

text \<open>
  Claim C10. With \<open>1 \<le> num_chunks \<le> N\<close> the chunking returns a list of chunks, none of
  them empty. With \<open>num_chunks > N\<close> the chunk size is 0, the range over the list raises
  \<^verbatim>\<open>ValueError\<close> and no chunk list is returned; the scan then fails with that error.
  So the chunking returns only when \<open>num_chunks \<le> N\<close>.
\<close>

theorem chunking_total_iff:
  "(1 \<le> num_chunks \<and> num_chunks \<le> length data \<longrightarrow>
      (\<exists>chunks. start_loc_list data num_chunks = Inr chunks \<and> (\<forall>a \<in> set chunks. a \<noteq> [])))
   \<and> (length data < num_chunks \<longrightarrow>
        chunk_size data num_chunks = Inr 0 \<and> start_loc_list data num_chunks = Inl ValueError)
   \<and> (start_loc_list data num_chunks = Inr chunks' \<longrightarrow>
        1 \<le> num_chunks \<and> num_chunks \<le> length data)
   \<and> (start_loc_data w h patch_size = Inr grid \<and> length grid < num_chunks' \<longrightarrow>
        scan_patches np_var wsi w h patch_size level_downsample num_chunks' order = Inl ValueError)"
proof (intro conjI impI)
  assume a: "1 \<le> num_chunks \<and> num_chunks \<le> length data"
  then have "0 < num_chunks" "num_chunks \<le> length data" by simp_all
  from start_loc_list_pos[OF this] obtain chunks
    where c: "start_loc_list data num_chunks = Inr chunks" by blast
  with start_loc_list_nonempty[OF c]
  show "\<exists>chunks. start_loc_list data num_chunks = Inr chunks \<and> (\<forall>a \<in> set chunks. a \<noteq> [])"
    by blast
next
  assume "length data < num_chunks"
  then show "chunk_size data num_chunks = Inr 0"
    "start_loc_list data num_chunks = Inl ValueError"
    by (rule start_loc_list_too_many)+
next
  assume "start_loc_list data num_chunks = Inr chunks'"
  from start_loc_list_Inr[OF this] show "1 \<le> num_chunks" "num_chunks \<le> length data"
    by simp_all
next
  assume "start_loc_data w h patch_size = Inr grid \<and> length grid < num_chunks'"
  then show "scan_patches np_var wsi w h patch_size level_downsample num_chunks' order = Inl ValueError"
    by (simp add: scan_patches_def future_result1_def start_loc_list_too_many)
qed

theorem chunking_total_iff_witness:
  "(1::nat) \<le> 2 \<and> 2 \<le> length [(0, 0), (2, 0)::coord]
   \<and> start_loc_list [(0, 0), (2, 0)::coord] 2 = Inr [[(0, 0)], [(2, 0)]]
   \<and> length [(0, 0), (2, 0)::coord] < 3
   \<and> chunk_size [(0, 0), (2, 0)::coord] 3 = Inr 0
   \<and> start_loc_list [(0, 0), (2, 0)::coord] 3 = Inl ValueError
   \<and> start_loc_data 4 2 2 = Inr [(0, 0), (2, 0)]
   \<and> scan_patches variance (\<lambda>loc sz lv. Inr [[[0]]]) 4 2 2 4 3 [] = Inl ValueError"
proof -
  have e: "start_loc_list [(0, 0), (2, 0)::coord] 2 = Inr [[(0, 0)], [(2, 0)]]"
    by (simp add: start_loc_list_def chunk_size_def py_range_def slice_def upt_rec)
  show ?thesis
    using chunking_total_iff[of 2 "[(0, 0), (2, 0)::coord]" "[[(0, 0)], [(2, 0)]]" 4 2 2
        "[(0, 0), (2, 0)]" 3 variance "(\<lambda>loc sz lv. Inr [[[0]]])" 4 "[]"]
      chunking_total_iff[of 3 "[(0, 0), (2, 0)::coord]"]
    by (simp add: e grid_4_2)
qed

section \<open>Properties of the aggregator\<close>

lemma append_all_eq: "append_all patches res1 = patches @ res1"
  by (induction res1 arbitrary: patches) auto

lemma compile_loop_Inr:
  "compile_loop patches futures = Inr out \<longleftrightarrow>
     (\<forall>f \<in> set futures. \<not> isl f) \<and> out = patches @ concat (map projr futures)"
proof (induction futures arbitrary: patches)
  case Nil show ?case by auto
next
  case (Cons f fs)
  show ?case
  proof (cases f)
    case (Inl e) then show ?thesis by simp
  next
    case (Inr res1) with Cons show ?thesis by (simp add: append_all_eq)
  qed
qed

lemma completion_order_mset:
  assumes "completion_order n order"
  shows "mset order = mset [0..<n]"
proof -
  have "mset order = mset (sort order)" by simp
  with assms show ?thesis by (simp add: completion_order_def)
qed

lemma mset_as_completed:
  assumes "completion_order (length futures) order"
  shows "mset (as_completed order futures) = mset futures"
proof -
  have "mset (as_completed order futures) = image_mset ((!) futures) (mset order)"
    by (simp add: as_completed_def)
  also have "\<dots> = image_mset ((!) futures) (mset [0..<length futures])"
    by (simp only: completion_order_mset[OF assms])
  also have "\<dots> = mset (map ((!) futures) [0..<length futures])" by simp
  also have "\<dots> = mset futures" by (simp only: map_nth)
  finally show ?thesis .
qed

lemma mset_concat_cong:
  assumes "mset xs = mset ys"
  shows "mset (concat (map f xs)) = mset (concat (map f ys))"
proof -
  have "mset (concat (map f zs)) = (\<Sum>z \<in># mset zs. mset (f z))" for zs
    by (induction zs) auto
  with assms show ?thesis by simp
qed

lemma compile_results_Inr:
  assumes "completion_order (length futures) order"
  shows "compile_results order futures = Inr out \<longleftrightarrow>
     (\<forall>f \<in> set futures. \<not> isl f) \<and> out = concat (map projr (as_completed order futures))"
    and "mset (concat (map projr (as_completed order futures))) = mset (concat (map projr futures))"
proof -
  from mset_as_completed[OF assms] have m: "mset (as_completed order futures) = mset futures" .
  then have "set (as_completed order futures) = set futures" by (rule mset_eq_setD)
  then show "compile_results order futures = Inr out \<longleftrightarrow>
     (\<forall>f \<in> set futures. \<not> isl f) \<and> out = concat (map projr (as_completed order futures))"
    by (simp add: compile_results_def compile_loop_Inr)
  show "mset (concat (map projr (as_completed order futures))) = mset (concat (map projr futures))"
    by (rule mset_concat_cong[OF m])
qed

text \<open>
  Claim C2. Whatever the order in which the futures complete, when \<^verbatim>\<open>compile_results\<close>
  returns for one completion order it returns for every other one, with the same
  coordinates (as a set, and even as a multiset). The set returned is the union of the
  per-chunk result lists, so every coordinate of every result is in it.
\<close>

theorem compile_results_order_independent:
  assumes "completion_order (length futures) order1"
    and "completion_order (length futures) order2"
    and "compile_results order1 futures = Inr patches"
  shows "(\<exists>patches'. compile_results order2 futures = Inr patches'
           \<and> set patches' = set patches \<and> mset patches' = mset patches)
       \<and> set patches = (\<Union>res \<in> {r. Inr r \<in> set futures}. set res)
       \<and> (\<forall>res. Inr res \<in> set futures \<longrightarrow> set res \<subseteq> set patches)"
proof -
  from assms(3) have "(\<forall>f \<in> set futures. \<not> isl f)
      \<and> patches = concat (map projr (as_completed order1 futures))"
    by (rule iffD1[OF compile_results_Inr(1)[OF assms(1)]])
  then have ok: "\<forall>f \<in> set futures. \<not> isl f"
    and p: "patches = concat (map projr (as_completed order1 futures))" by blast+
  define patches' where "patches' = concat (map projr (as_completed order2 futures))"
  from ok have r: "compile_results order2 futures = Inr patches'"
    unfolding patches'_def by (simp only: compile_results_Inr(1)[OF assms(2)] simp_thms)
  have m: "mset patches' = mset patches"
    unfolding p patches'_def
    by (simp only: compile_results_Inr(2)[OF assms(1)] compile_results_Inr(2)[OF assms(2)])
  from m have "set patches' = set patches" by (rule mset_eq_setD)
  with r m have 1: "\<exists>patches'. compile_results order2 futures = Inr patches'
           \<and> set patches' = set patches \<and> mset patches' = mset patches" by blast
  have "mset patches = mset (concat (map projr futures))"
    unfolding p by (rule compile_results_Inr(2)[OF assms(1)])
  then have "set patches = set (concat (map projr futures))" by (rule mset_eq_setD)
  also have "\<dots> = (\<Union>res \<in> {r. Inr r \<in> set futures}. set res)"
  proof (intro set_eqI iffI)
    fix x assume "x \<in> set (concat (map projr futures))"
    then obtain f where f: "f \<in> set futures" "x \<in> set (projr f)" by auto
    with ok have "Inr (projr f) \<in> set futures" by (cases f) auto
    with f show "x \<in> (\<Union>res \<in> {r. Inr r \<in> set futures}. set res)" by blast
  next
    fix x assume "x \<in> (\<Union>res \<in> {r. Inr r \<in> set futures}. set res)"
    then obtain r where "Inr r \<in> set futures" "x \<in> set r" by auto
    then show "x \<in> set (concat (map projr futures))" by force
  qed
  finally have 2: "set patches = (\<Union>res \<in> {r. Inr r \<in> set futures}. set res)" .
  then have "\<forall>res. Inr res \<in> set futures \<longrightarrow> set res \<subseteq> set patches" by blast
  with 1 2 show ?thesis by (intro conjI)
qed

lemma three_results_orders:
  "completion_order (length three_results) [0, 1, 2]"
  "completion_order (length three_results) [2, 1, 0]"
  by (simp_all add: three_results_def completion_order_def upt_rec)

lemma three_results_compiled:
  "compile_results [0, 1, 2] three_results = Inr [(0, 0), (4, 0)]"
  "compile_results [2, 1, 0] three_results = Inr [(4, 0), (0, 0)]"
  by (simp_all add: three_results_def compile_results_def as_completed_def)

theorem compile_results_order_independent_witness:
  "completion_order (length three_results) [0, 1, 2]
   \<and> completion_order (length three_results) [2, 1, 0]
   \<and> compile_results [0, 1, 2] three_results = Inr [(0, 0), (4, 0)]
   \<and> compile_results [2, 1, 0] three_results = Inr [(4, 0), (0, 0)]
   \<and> (\<exists>patches'. compile_results [2, 1, 0] three_results = Inr patches'
         \<and> set patches' = set [(0, 0), (4, 0)] \<and> mset patches' = mset [(0, 0), (4, 0)])
   \<and> set [(0, 0), (4, 0)] = (\<Union>res \<in> {r. Inr r \<in> set three_results}. set res)
   \<and> Inr [(4, 0)] \<in> set three_results
   \<and> set [(4, 0)] \<subseteq> set [(0::nat, 0::nat), (4, 0)]"
proof -
  note r = compile_results_order_independent[OF three_results_orders three_results_compiled(1)]
  note r1 = conjunct1[OF r]
  note r2 = conjunct1[OF conjunct2[OF r]]
  have m: "Inr [(4, 0)] \<in> set three_results" by (simp add: three_results_def)
  note r3 = mp[OF spec[OF conjunct2[OF conjunct2[OF r]]] m]
  show ?thesis
    by (rule conjI[OF three_results_orders(1) conjI[OF three_results_orders(2)
          conjI[OF three_results_compiled(1) conjI[OF three_results_compiled(2)
          conjI[OF r1 conjI[OF r2 conjI[OF m r3]]]]]]])
qed

section \<open>Properties of the worker\<close>

lemma process_loop_Inr:
  assumes "snd (process_loop np_var wsi ps red locs res tr) = Inr out"
  shows "out = res @ filter (foreground np_var wsi ps red) locs
       \<and> fst (process_loop np_var wsi ps red locs res tr) = tr @ concat (map (calls_at wsi ps red) locs)
       \<and> (\<forall>loc \<in> set locs. \<not> isl (wsi loc (ps div red, ps div red) 1))
       \<and> (locs \<noteq> [] \<longrightarrow> 0 < red)"
  using assms
proof (induction locs arbitrary: res tr)
  case Nil then show ?case by simp
next
  case (Cons loc rest)
  from Cons.prems have red: "0 < red" by (auto split: if_splits)
  from Cons.prems red obtain region where r: "wsi loc (ps div red, ps div red) 1 = Inr region"
    by (cases "wsi loc (ps div red, ps div red) 1") (auto simp: Let_def)
  show ?case
  proof (cases "threshold np_var region default_threshold_value")
    case True
    with Cons.prems red r
    have "snd (process_loop np_var wsi ps red rest (res @ [(fst loc, snd loc)])
            (tr @ [ReadRegion loc (ps div red, ps div red) 1] @ [Classify region])) = Inr out"
      by (simp add: Let_def)
    from Cons.IH[OF this] True red r show ?thesis
      by (simp add: Let_def foreground_def calls_at_def)
  next
    case False
    with Cons.prems red r
    have "snd (process_loop np_var wsi ps red rest res
            (tr @ [ReadRegion loc (ps div red, ps div red) 1] @ [Classify region])) = Inr out"
      by (simp add: Let_def)
    from Cons.IH[OF this] False red r show ?thesis
      by (simp add: Let_def foreground_def calls_at_def)
  qed
qed

lemma process_loop_succeeds:
  assumes "\<forall>loc \<in> set locs. \<not> isl (wsi loc (ps div red, ps div red) 1)" "0 < red"
  shows "\<exists>out. snd (process_loop np_var wsi ps red locs res tr) = Inr out"
  using assms(1)
proof (induction locs arbitrary: res tr)
  case Nil show ?case by simp
next
  case (Cons loc rest)
  then obtain region where r: "wsi loc (ps div red, ps div red) 1 = Inr region"
    by (cases "wsi loc (ps div red, ps div red) 1") auto
  from Cons show ?case using assms(2) r by (simp add: Let_def)
qed

lemma process_patch_Inr:
  assumes "snd (process_patch np_var wsi ps red locs) = Inr out"
  shows "out = filter (foreground np_var wsi ps red) locs"
    and "fst (process_patch np_var wsi ps red locs) = concat (map (calls_at wsi ps red) locs)"
    and "\<forall>loc \<in> set locs. \<not> isl (wsi loc (ps div red, ps div red) 1)"
  using process_loop_Inr[of np_var wsi ps red locs "[]" "[]" out] assms
  by (simp_all add: process_patch_def)

lemma read_locations_append: "read_locations (xs @ ys) = read_locations xs @ read_locations ys"
  by (induction xs rule: read_locations.induct) auto

lemma read_locations_calls:
  "read_locations (concat (map (calls_at wsi ps red) locs)) = locs"
  by (induction locs) (auto simp: calls_at_def Let_def read_locations_append split: sum.splits)

lemma calls_at_Inr:
  assumes "\<not> isl (wsi loc (ps div red, ps div red) 1)"
  shows "calls_at wsi ps red loc =
     [ReadRegion loc (ps div red, ps div red) 1,
      Classify (projr (wsi loc (ps div red, ps div red) 1))]"
  using assms by (cases "wsi loc (ps div red, ps div red) 1") (simp_all add: calls_at_def)

lemma size_floor_int:
  assumes "0 \<le> ds"
  shows "int (ps div reduction ds) = \<lfloor>(of_nat ps ::real) / of_int \<lfloor>ds\<rfloor>\<rfloor>"
proof -
  from assms have "(of_int \<lfloor>ds\<rfloor> ::real) = of_nat (reduction ds)"
    by (simp add: reduction_def)
  then show ?thesis by (simp add: floor_divide_of_nat_eq)
qed

text \<open>
  Claim C6, as the code has it. A worker returns when \<^verbatim>\<open>reduction\<close> is positive and
  every read succeeds. A worker that returns has made, for every coordinate of its
  sub-list in order, one \<^verbatim>\<open>read_region\<close> call at level 1 at that coordinate and one
  \<^verbatim>\<open>threshold\<close> call on the region read, and nothing else; it returns exactly the
  coordinates whose region is foreground. The size requested is
  \<^verbatim>\<open>patch_size // reduction\<close>, the floor of \<^verbatim>\<open>patch_size\<close> divided by the integer
  part of the level-1 downsample factor; it is the floor of \<^verbatim>\<open>patch_size\<close> divided by
  the downsample factor when that factor is a whole number.
\<close>

theorem process_patch_calls:
  "(0 < reduction ds
      \<and> (\<forall>loc \<in> set locs.
            \<not> isl (wsi loc (patch_size div reduction ds, patch_size div reduction ds) 1)) \<longrightarrow>
      (\<exists>out. snd (process_patch np_var wsi patch_size (reduction ds) locs) = Inr out))
   \<and> (snd (process_patch np_var wsi patch_size (reduction ds) locs) = Inr res \<longrightarrow>
        fst (process_patch np_var wsi patch_size (reduction ds) locs) =
           concat (map (\<lambda>loc.
             [ReadRegion loc (patch_size div reduction ds, patch_size div reduction ds) 1,
              Classify (projr (wsi loc (patch_size div reduction ds, patch_size div reduction ds) 1))])
             locs)
        \<and> res = filter (foreground np_var wsi patch_size (reduction ds)) locs)
   \<and> (0 \<le> ds \<longrightarrow>
        int (patch_size div reduction ds) = \<lfloor>(of_nat patch_size :: real) / of_int \<lfloor>ds\<rfloor>\<rfloor>)
   \<and> (ds = of_nat (reduction ds) \<longrightarrow>
        int (patch_size div reduction ds) = \<lfloor>of_nat patch_size / ds\<rfloor>)"
proof (intro conjI impI)
  assume "0 < reduction ds
      \<and> (\<forall>loc \<in> set locs.
            \<not> isl (wsi loc (patch_size div reduction ds, patch_size div reduction ds) 1))"
  then show "\<exists>out. snd (process_patch np_var wsi patch_size (reduction ds) locs) = Inr out"
    unfolding process_patch_def using process_loop_succeeds by blast
next
  assume a: "snd (process_patch np_var wsi patch_size (reduction ds) locs) = Inr res"
  have "map (calls_at wsi patch_size (reduction ds)) locs =
        map (\<lambda>loc.
             [ReadRegion loc (patch_size div reduction ds, patch_size div reduction ds) 1,
              Classify (projr (wsi loc (patch_size div reduction ds, patch_size div reduction ds) 1))])
             locs"
    using process_patch_Inr(3)[OF a] by (intro map_cong refl calls_at_Inr) blast
  with process_patch_Inr(2)[OF a]
  show "fst (process_patch np_var wsi patch_size (reduction ds) locs) =
           concat (map (\<lambda>loc.
             [ReadRegion loc (patch_size div reduction ds, patch_size div reduction ds) 1,
              Classify (projr (wsi loc (patch_size div reduction ds, patch_size div reduction ds) 1))])
             locs)" by (simp only:)
  show "res = filter (foreground np_var wsi patch_size (reduction ds)) locs"
    by (rule process_patch_Inr(1)[OF a])
next
  assume "0 \<le> ds"
  then show "int (patch_size div reduction ds) = \<lfloor>(of_nat patch_size :: real) / of_int \<lfloor>ds\<rfloor>\<rfloor>"
    by (rule size_floor_int)
next
  assume "ds = of_nat (reduction ds)"
  then have "\<lfloor>of_nat patch_size / ds\<rfloor> = \<lfloor>(of_nat patch_size :: real) / of_nat (reduction ds)\<rfloor>"
    by simp
  then show "int (patch_size div reduction ds) = \<lfloor>of_nat patch_size / ds\<rfloor>"
    by (simp only: floor_divide_of_nat_eq)
qed

lemma three_tile_worker:
  "process_patch variance three_tile_slide 164 (reduction 4) [(0, 0), (2, 0)] =
     ([ReadRegion (0, 0) (41, 41) 1, Classify [[[0, 100]]],
       ReadRegion (2, 0) (41, 41) 1, Classify [[[7, 7]]]], Inr [(0, 0)])"
  by (simp add: process_patch_def reduction_def three_tile_slide_def
      threshold_def variance_def flatten_def default_threshold_value_def)

theorem process_patch_calls_witness:
  "0 < reduction 4
   \<and> (\<exists>out. snd (process_patch variance three_tile_slide 164 (reduction 4) [(0, 0), (2, 0)]) = Inr out)
   \<and> snd (process_patch variance three_tile_slide 164 (reduction 4) [(0, 0), (2, 0)]) = Inr [(0, 0)]
   \<and> fst (process_patch variance three_tile_slide 164 (reduction 4) [(0, 0), (2, 0)]) =
       [ReadRegion (0, 0) (41, 41) 1, Classify [[[0, 100]]],
        ReadRegion (2, 0) (41, 41) 1, Classify [[[7, 7]]]]
   \<and> [(0, 0)] = filter (foreground variance three_tile_slide 164 (reduction 4)) [(0, 0), (2, 0)]
   \<and> (0::real) \<le> 4
   \<and> int (164 div reduction 4) = \<lfloor>(of_nat 164 :: real) / of_int \<lfloor>4::real\<rfloor>\<rfloor>
   \<and> (4::real) = of_nat (reduction 4)
   \<and> int (164 div reduction 4) = \<lfloor>of_nat 164 / (4::real)\<rfloor>"
proof -
  have p: "0 < reduction 4" by (simp add: reduction_def)
  have h0: "0 < reduction 4
      \<and> (\<forall>loc \<in> set [(0, 0), (2, 0)].
            \<not> isl (three_tile_slide loc (164 div reduction 4, 164 div reduction 4) 1))"
    by (simp add: reduction_def three_tile_slide_def)
  have s: "snd (process_patch variance three_tile_slide 164 (reduction 4) [(0, 0), (2, 0)]) = Inr [(0, 0)]"
    by (simp only: three_tile_worker snd_conv)
  have t: "fst (process_patch variance three_tile_slide 164 (reduction 4) [(0, 0), (2, 0)]) =
       [ReadRegion (0, 0) (41, 41) 1, Classify [[[0, 100]]],
        ReadRegion (2, 0) (41, 41) 1, Classify [[[7, 7]]]]"
    by (simp only: three_tile_worker fst_conv)
  have h1: "(0::real) \<le> 4" by simp
  have h2: "(4::real) = of_nat (reduction 4)" by (simp add: reduction_def)
  note c0 = process_patch_calls[where ds = 4 and locs = "[(0, 0), (2, 0)]"
      and wsi = three_tile_slide and patch_size = 164 and np_var = variance,
      THEN conjunct1, THEN mp, OF h0]
  note c1 = process_patch_calls[THEN conjunct2, THEN conjunct1, THEN mp, OF s, THEN conjunct2]
  note c2 = process_patch_calls[THEN conjunct2, THEN conjunct2, THEN conjunct1, THEN mp, OF h1,
      of 164]
  note c3 = process_patch_calls[THEN conjunct2, THEN conjunct2, THEN conjunct2, THEN mp, OF h2,
      of 164]
  show ?thesis
    by (rule conjI[OF p conjI[OF c0 conjI[OF s conjI[OF t conjI[OF c1 conjI[OF h1
          conjI[OF c2 conjI[OF h2 c3]]]]]]]])
qed

text \<open>
  Claim C6, as it is written, for a downsample factor that is not a whole number: with
  \<^verbatim>\<open>patch_size = 164\<close> and level-1 downsample 4097/1024 (about 4.001; a slide 4097 pixels
  wide whose level 1 is 1024 pixels wide) the worker requests 41 x 41 pixels, and 164
  divided by the downsample factor, rounded down, is 40.
\<close>

theorem process_patch_size_counterexample:
  "fst (process_patch variance three_tile_slide 164 (reduction (4097 / 1024)) [(0, 0)]) =
     [ReadRegion (0, 0) (41, 41) 1, Classify [[[0, 100]]]]
   \<and> \<lfloor>164 / (4097 / 1024 :: real)\<rfloor> = 40"
  by (simp add: process_patch_def reduction_def three_tile_slide_def
      threshold_def variance_def flatten_def default_threshold_value_def)

section \<open>Properties of the scan\<close>

lemma future_result1_Inr:
  assumes "future_result1 np_var wsi w h ps ds nc = Inr futures"
  shows "\<exists>grid chunks. start_loc_data w h ps = Inr grid \<and> start_loc_list grid nc = Inr chunks
           \<and> futures = map (\<lambda>c. snd (process_patch np_var wsi ps (reduction ds) c)) chunks"
proof (cases "start_loc_data w h ps")
  case (Inl e)
  with assms show ?thesis by (simp add: future_result1_def)
next
  case g: (Inr grid)
  show ?thesis
  proof (cases "start_loc_list grid nc")
    case (Inl e)
    with assms g show ?thesis by (simp add: future_result1_def)
  next
    case (Inr chunks)
    with assms g show ?thesis by (simp add: future_result1_def)
  qed
qed

lemma worker_results:
  assumes "\<forall>f \<in> set (map (\<lambda>c. snd (process_patch np_var wsi ps red c)) chunks). \<not> isl f"
  shows "map projr (map (\<lambda>c. snd (process_patch np_var wsi ps red c)) chunks)
           = map (filter (foreground np_var wsi ps red)) chunks"
    and "\<forall>c \<in> set chunks. snd (process_patch np_var wsi ps red c) = Inr (filter (foreground np_var wsi ps red) c)"
proof -
  have w: "snd (process_patch np_var wsi ps red c) = Inr (filter (foreground np_var wsi ps red) c)"
    if "c \<in> set chunks" for c
  proof (cases "snd (process_patch np_var wsi ps red c)")
    case (Inl e)
    with that assms show ?thesis by force
  next
    case (Inr out)
    with process_patch_Inr(1)[OF Inr] show ?thesis by simp
  qed
  then show "\<forall>c \<in> set chunks. snd (process_patch np_var wsi ps red c) = Inr (filter (foreground np_var wsi ps red) c)"
    by blast
  from w show "map projr (map (\<lambda>c. snd (process_patch np_var wsi ps red c)) chunks)
           = map (filter (foreground np_var wsi ps red)) chunks"
    by simp
qed

lemma scan_patches_Inr:
  assumes fr: "future_result1 np_var wsi w h ps ds nc = Inr futures"
    and co: "completion_order (length futures) order"
    and sc: "scan_patches np_var wsi w h ps ds nc order = Inr patches"
  obtains grid chunks where "start_loc_data w h ps = Inr grid"
    and "start_loc_list grid nc = Inr chunks"
    and "\<forall>c \<in> set chunks. snd (process_patch np_var wsi ps (reduction ds) c)
            = Inr (filter (foreground np_var wsi ps (reduction ds)) c)"
    and "mset patches = mset (filter (foreground np_var wsi ps (reduction ds)) grid)"
proof -
  from future_result1_Inr[OF fr] obtain grid chunks where g: "start_loc_data w h ps = Inr grid"
    and c: "start_loc_list grid nc = Inr chunks"
    and f: "futures = map (\<lambda>c. snd (process_patch np_var wsi ps (reduction ds) c)) chunks"
    by blast
  from sc fr have "compile_results order futures = Inr patches"
    by (simp add: scan_patches_def)
  then have "(\<forall>f \<in> set futures. \<not> isl f)
      \<and> patches = concat (map projr (as_completed order futures))"
    by (rule iffD1[OF compile_results_Inr(1)[OF co]])
  then have ok: "\<forall>f \<in> set futures. \<not> isl f"
    and p: "patches = concat (map projr (as_completed order futures))" by blast+
  have m: "mset patches = mset (concat (map projr futures))"
    unfolding p by (rule compile_results_Inr(2)[OF co])
  from ok have ok': "\<forall>f \<in> set (map (\<lambda>c. snd (process_patch np_var wsi ps (reduction ds) c)) chunks). \<not> isl f"
    unfolding f .
  have "map projr futures = map (filter (foreground np_var wsi ps (reduction ds))) chunks"
    unfolding f by (rule worker_results(1)[OF ok'])
  then have "concat (map projr futures) = filter (foreground np_var wsi ps (reduction ds)) (concat chunks)"
    by (simp only: filter_concat)
  then have "concat (map projr futures) = filter (foreground np_var wsi ps (reduction ds)) grid"
    by (simp only: concat_start_loc_list[OF c])
  with m have "mset patches = mset (filter (foreground np_var wsi ps (reduction ds)) grid)"
    by (simp only:)
  with that[OF g c worker_results(2)[OF ok']] show thesis .
qed

lemma scan_patches_succeeds_iff:
  assumes fr: "future_result1 np_var wsi w h ps ds nc = Inr futures"
    and co: "completion_order (length futures) order"
  shows "(\<exists>patches. scan_patches np_var wsi w h ps ds nc order = Inr patches) \<longleftrightarrow> (\<forall>f \<in> set futures. \<not> isl f)"
  using compile_results_Inr(1)[OF co] fr by (simp add: scan_patches_def)

text \<open>
  Claim C7. The only thing that can differ between two runs of the scan on the same slide
  with the same parameters is the order in which the futures complete. If building the
  futures fails, both runs fail with that error. Otherwise, when one run returns, the other
  returns too and with the same set of coordinates, namely the grid coordinates whose
  region is foreground: a function of the slide and the parameters alone.
\<close>

theorem scan_patches_deterministic:
  "(future_result1 np_var wsi w h ps ds nc = Inl e \<longrightarrow>
      scan_patches np_var wsi w h ps ds nc order1 = Inl e \<and> scan_patches np_var wsi w h ps ds nc order2 = Inl e)
   \<and> (future_result1 np_var wsi w h ps ds nc = Inr futures
        \<and> completion_order (length futures) order1 \<and> completion_order (length futures) order2
        \<and> scan_patches np_var wsi w h ps ds nc order1 = Inr patches1 \<longrightarrow>
        (\<exists>patches2. scan_patches np_var wsi w h ps ds nc order2 = Inr patches2
            \<and> set patches2 = set patches1)
        \<and> (\<exists>grid. start_loc_data w h ps = Inr grid
            \<and> set patches1 = {loc \<in> set grid. foreground np_var wsi ps (reduction ds) loc}))"
proof (intro conjI impI)
  assume "future_result1 np_var wsi w h ps ds nc = Inl e"
  then show "scan_patches np_var wsi w h ps ds nc order1 = Inl e"
    "scan_patches np_var wsi w h ps ds nc order2 = Inl e"
    by (simp_all add: scan_patches_def)
next
  assume a: "future_result1 np_var wsi w h ps ds nc = Inr futures
        \<and> completion_order (length futures) order1 \<and> completion_order (length futures) order2
        \<and> scan_patches np_var wsi w h ps ds nc order1 = Inr patches1"
  then have fr: "future_result1 np_var wsi w h ps ds nc = Inr futures"
    and co1: "completion_order (length futures) order1"
    and co2: "completion_order (length futures) order2"
    and sc: "scan_patches np_var wsi w h ps ds nc order1 = Inr patches1" by simp_all
  obtain grid
    where g: "start_loc_data w h ps = Inr grid"
      and m1: "mset patches1 = mset (filter (foreground np_var wsi ps (reduction ds)) grid)"
    by (rule scan_patches_Inr[OF fr co1 sc])
  from sc scan_patches_succeeds_iff[OF fr co1] have "\<forall>f \<in> set futures. \<not> isl f" by blast
  with scan_patches_succeeds_iff[OF fr co2] obtain patches2
    where sc2: "scan_patches np_var wsi w h ps ds nc order2 = Inr patches2" by blast
  have m2: "mset patches2 = mset (filter (foreground np_var wsi ps (reduction ds)) grid)"
  proof (rule scan_patches_Inr[OF fr co2 sc2])
    fix grid' chunks'
    assume "start_loc_data w h ps = Inr grid'"
      and "mset patches2 = mset (filter (foreground np_var wsi ps (reduction ds)) grid')"
    with g show ?thesis by simp
  qed
  from m1 m2 have "mset patches2 = mset patches1" by simp
  then have "set patches2 = set patches1" by (rule mset_eq_setD)
  with sc2 show "\<exists>patches2. scan_patches np_var wsi w h ps ds nc order2 = Inr patches2
            \<and> set patches2 = set patches1" by blast
  from m1 have "set patches1 = set (filter (foreground np_var wsi ps (reduction ds)) grid)"
    by (rule mset_eq_setD)
  with g show "\<exists>grid. start_loc_data w h ps = Inr grid
            \<and> set patches1 = {loc \<in> set grid. foreground np_var wsi ps (reduction ds) loc}"
    by auto
qed


lemma three_tile_futures: "future_result1 variance three_tile_slide 6 2 2 1 3 = Inr three_results"
  by (simp add: future_result1_def start_loc_data_def py_range_def start_loc_list_def
      chunk_size_def slice_def process_patch_def reduction_def three_tile_slide_def
      threshold_def variance_def flatten_def default_threshold_value_def upt_rec three_results_def)

lemma three_tile_scan:
  "scan_patches variance three_tile_slide 6 2 2 1 3 [0, 1, 2] = Inr [(0, 0), (4, 0)]"
  "scan_patches variance three_tile_slide 6 2 2 1 3 [2, 1, 0] = Inr [(4, 0), (0, 0)]"
  by (simp_all only: scan_patches_def three_tile_futures sum.case three_results_compiled)

lemma no_chunks_futures: "future_result1 variance three_tile_slide 6 2 2 1 0 = Inl ZeroDivisionError"
  by (simp add: future_result1_def start_loc_data_def py_range_def start_loc_list_def
      chunk_size_def)

theorem scan_patches_deterministic_witness:
  "(future_result1 variance three_tile_slide 6 2 2 1 3 = Inr three_results
     \<and> completion_order (length three_results) [0, 1, 2]
     \<and> completion_order (length three_results) [2, 1, 0]
     \<and> scan_patches variance three_tile_slide 6 2 2 1 3 [0, 1, 2] = Inr [(0, 0), (4, 0)])
   \<and> ((\<exists>patches2. scan_patches variance three_tile_slide 6 2 2 1 3 [2, 1, 0] = Inr patches2
          \<and> set patches2 = set [(0, 0), (4, 0)])
      \<and> (\<exists>grid. start_loc_data 6 2 2 = Inr grid
          \<and> set [(0, 0), (4, 0)] = {loc \<in> set grid. foreground variance three_tile_slide 2 (reduction 1) loc}))
   \<and> scan_patches variance three_tile_slide 6 2 2 1 3 [2, 1, 0] = Inr [(4, 0), (0, 0)]
   \<and> future_result1 variance three_tile_slide 6 2 2 1 0 = Inl ZeroDivisionError
   \<and> (scan_patches variance three_tile_slide 6 2 2 1 0 [0] = Inl ZeroDivisionError
      \<and> scan_patches variance three_tile_slide 6 2 2 1 0 [] = Inl ZeroDivisionError)"
proof -
  have h: "future_result1 variance three_tile_slide 6 2 2 1 3 = Inr three_results
     \<and> completion_order (length three_results) [0, 1, 2]
     \<and> completion_order (length three_results) [2, 1, 0]
     \<and> scan_patches variance three_tile_slide 6 2 2 1 3 [0, 1, 2] = Inr [(0, 0), (4, 0)]"
    by (rule conjI[OF three_tile_futures conjI[OF three_results_orders(1)
          conjI[OF three_results_orders(2) three_tile_scan(1)]]])
  note a = scan_patches_deterministic[THEN conjunct2, THEN mp, OF h]
  note b = scan_patches_deterministic[THEN conjunct1, THEN mp, OF no_chunks_futures,
      of "[0]" "[]"]
  show ?thesis
    by (rule conjI[OF h conjI[OF a conjI[OF three_tile_scan(2) conjI[OF no_chunks_futures b]]]])
qed

lemma distinct_concat_nth:
  assumes "distinct (concat xss)" "i < j" "j < length xss"
  shows "set (xss ! i) \<inter> set (xss ! j) = {}"
proof -
  from assms(3) have "xss = take j xss @ xss ! j # drop (Suc j) xss" by (rule id_take_nth_drop)
  then have "concat xss = concat (take j xss) @ xss ! j @ concat (drop (Suc j) xss)"
    by (metis concat.simps(2) concat_append)
  with assms(1) have d: "set (concat (take j xss)) \<inter> set (xss ! j) = {}" by auto
  from assms(2,3) have "xss ! i \<in> set (take j xss)"
    by (metis in_set_conv_nth length_take min_less_iff_conj nth_take order_less_trans)
  with d show ?thesis by auto
qed

lemma distinct_concat_disjoint:
  assumes "distinct (concat xss)"
  shows "\<forall>i<length xss. \<forall>j<length xss. i \<noteq> j \<longrightarrow> set (xss ! i) \<inter> set (xss ! j) = {}"
proof (intro allI impI)
  fix i j assume ij: "i < length xss" "j < length xss" "i \<noteq> j"
  show "set (xss ! i) \<inter> set (xss ! j) = {}"
  proof (cases "i < j")
    case True
    from distinct_concat_nth[OF assms True ij(2)] show ?thesis .
  next
    case False
    with ij have "j < i" by simp
    from distinct_concat_nth[OF assms this ij(1)] show ?thesis by blast
  qed
qed

text \<open>
  Claim C9. When the scan returns, the list it returns has no duplicates. The chunks
  concatenated are the grid, the grid has no duplicates, so the chunks are pairwise
  disjoint; the locations the workers read, chunk after chunk, are exactly the grid, every
  cell once; and every coordinate returned is a grid coordinate.
\<close>

theorem scan_patches_distinct:
  assumes "future_result1 np_var wsi w h ps ds nc = Inr futures"
    and "completion_order (length futures) order"
    and "scan_patches np_var wsi w h ps ds nc order = Inr patches"
  shows "distinct patches
       \<and> (\<exists>grid chunks. start_loc_data w h ps = Inr grid \<and> start_loc_list grid nc = Inr chunks
            \<and> concat chunks = grid \<and> distinct grid
            \<and> (\<forall>i<length chunks. \<forall>j<length chunks. i \<noteq> j
                  \<longrightarrow> set (chunks ! i) \<inter> set (chunks ! j) = {})
            \<and> concat (map (\<lambda>c. read_locations (fst (process_patch np_var wsi ps (reduction ds) c))) chunks)
                = grid
            \<and> set patches \<subseteq> set grid)"
proof -
  obtain grid chunks where g: "start_loc_data w h ps = Inr grid"
    and c: "start_loc_list grid nc = Inr chunks"
    and wk: "\<forall>c \<in> set chunks. snd (process_patch np_var wsi ps (reduction ds) c)
            = Inr (filter (foreground np_var wsi ps (reduction ds)) c)"
    and m: "mset patches = mset (filter (foreground np_var wsi ps (reduction ds)) grid)"
    by (rule scan_patches_Inr[OF assms])
  have dg: "distinct grid" by (rule start_loc_data_props(2)[OF g])
  have cc: "concat chunks = grid" by (rule concat_start_loc_list[OF c])
  from dg have "distinct (filter (foreground np_var wsi ps (reduction ds)) grid)" by simp
  with m have dp: "distinct patches" by (metis mset_eq_imp_distinct_iff)
  from m have "set patches = set (filter (foreground np_var wsi ps (reduction ds)) grid)"
    by (rule mset_eq_setD)
  then have sub: "set patches \<subseteq> set grid" by auto
  from dg cc have "distinct (concat chunks)" by simp
  then have dis: "\<forall>i<length chunks. \<forall>j<length chunks. i \<noteq> j
                  \<longrightarrow> set (chunks ! i) \<inter> set (chunks ! j) = {}"
    by (rule distinct_concat_disjoint)
  have "map (\<lambda>c. read_locations (fst (process_patch np_var wsi ps (reduction ds) c))) chunks = chunks"
  proof (rule map_idI)
    fix c assume "c \<in> set chunks"
    with wk have "snd (process_patch np_var wsi ps (reduction ds) c)
            = Inr (filter (foreground np_var wsi ps (reduction ds)) c)" by blast
    from process_patch_Inr(2)[OF this]
    show "read_locations (fst (process_patch np_var wsi ps (reduction ds) c)) = c"
      by (simp only: read_locations_calls)
  qed
  then have rd: "concat (map (\<lambda>c. read_locations (fst (process_patch np_var wsi ps (reduction ds) c))) chunks)
                = grid" using cc by (simp only:)
  from g c cc dg dis rd sub have "\<exists>grid chunks. start_loc_data w h ps = Inr grid \<and> start_loc_list grid nc = Inr chunks
            \<and> concat chunks = grid \<and> distinct grid
            \<and> (\<forall>i<length chunks. \<forall>j<length chunks. i \<noteq> j
                  \<longrightarrow> set (chunks ! i) \<inter> set (chunks ! j) = {})
            \<and> concat (map (\<lambda>c. read_locations (fst (process_patch np_var wsi ps (reduction ds) c))) chunks)
                = grid
            \<and> set patches \<subseteq> set grid" by blast
  with dp show ?thesis ..
qed

theorem scan_patches_distinct_witness:
  "future_result1 variance three_tile_slide 6 2 2 1 3 = Inr three_results
   \<and> completion_order (length three_results) [2, 1, 0]
   \<and> scan_patches variance three_tile_slide 6 2 2 1 3 [2, 1, 0] = Inr [(4, 0), (0, 0)]
   \<and> distinct [(4::nat, 0::nat), (0, 0)]
   \<and> (\<exists>grid chunks. start_loc_data 6 2 2 = Inr grid \<and> start_loc_list grid 3 = Inr chunks
            \<and> concat chunks = grid \<and> distinct grid
            \<and> (\<forall>i<length chunks. \<forall>j<length chunks. i \<noteq> j
                  \<longrightarrow> set (chunks ! i) \<inter> set (chunks ! j) = {})
            \<and> concat (map (\<lambda>c. read_locations (fst (process_patch variance three_tile_slide 2 (reduction 1) c))) chunks)
                = grid
            \<and> set [(4, 0), (0, 0)] \<subseteq> set grid)"
proof -
  note r = scan_patches_distinct[OF three_tile_futures three_results_orders(2) three_tile_scan(2)]
  show ?thesis
    by (rule conjI[OF three_tile_futures conjI[OF three_results_orders(2)
          conjI[OF three_tile_scan(2) r]]])
qed

section \<open>Properties of the mask\<close>

lemma well_shaped_zeros: "well_shaped (zeros s)"
  by (simp add: well_shaped_def zeros_def)

lemma getitem_zeros: "i < fst s \<Longrightarrow> j < snd s \<Longrightarrow> getitem (zeros s) i j = 0"
  by (simp add: getitem_def zeros_def)

lemma setitem_props:
  assumes "well_shaped a" "i < fst (shape a)" "j < snd (shape a)"
  shows "well_shaped (setitem a i j v)"
    and "shape (setitem a i j v) = shape a"
    and "i' < fst (shape a) \<Longrightarrow> j' < snd (shape a) \<Longrightarrow>
           getitem (setitem a i j v) i' j' = (if i' = i \<and> j' = j then v else getitem a i' j')"
proof -
  show "shape (setitem a i j v) = shape a" by (simp add: setitem_def)
  from assms show "well_shaped (setitem a i j v)"
    by (auto simp: well_shaped_def setitem_def dest!: set_update_subset_insert[THEN subsetD])
  assume "i' < fst (shape a)" "j' < snd (shape a)"
  with assms show "getitem (setitem a i j v) i' j' = (if i' = i \<and> j' = j then v else getitem a i' j')"
    by (auto simp: well_shaped_def setitem_def getitem_def nth_list_update)
qed

lemma mask_loop_cells:
  assumes "well_shaped m0" "shape m0 = (h div ps, w div ps)" "0 < ps * red"
  shows "\<exists>m. mask_loop w h ps red patches m0 = Inr m \<and> well_shaped m \<and> shape m = shape m0
       \<and> (\<forall>i<h div ps. \<forall>j<w div ps.
            getitem m i j = (if accepted_at ps red patches i j then 1 else getitem m0 i j))"
  using assms(1,2)
proof (induction patches arbitrary: m0)
  case Nil
  then show ?case by (simp add: accepted_at_def)
next
  case (Cons patch patches)
  define i where "i = snd patch div (ps * red)"
  define j where "j = fst patch div (ps * red)"
  show ?case
  proof (cases "i < h div ps \<and> j < w div ps")
    case True
    with Cons.prems have ij: "i < fst (shape m0)" "j < snd (shape m0)" by simp_all
    note sp = setitem_props[OF Cons.prems(1) ij]
    from sp(2) Cons.prems(2) have sh: "shape (setitem m0 i j 1) = (h div ps, w div ps)" by simp
    from Cons.IH[OF sp(1) sh] obtain m
      where m: "mask_loop w h ps red patches (setitem m0 i j 1) = Inr m" "well_shaped m"
        "shape m = shape (setitem m0 i j 1)"
        "\<forall>i'<h div ps. \<forall>j'<w div ps. getitem m i' j' =
            (if accepted_at ps red patches i' j' then 1 else getitem (setitem m0 i j 1) i' j')"
      by blast
    have "mask_loop w h ps red (patch # patches) m0 = Inr m"
      using m(1) True assms(3) by (simp add: i_def j_def Let_def)
    moreover have "shape m = shape m0" using m(3) sp(2) by simp
    moreover have "getitem m i' j' = (if accepted_at ps red (patch # patches) i' j' then 1 else getitem m0 i' j')"
      if "i' < h div ps" "j' < w div ps" for i' j'
    proof -
      from that Cons.prems(2) have "i' < fst (shape m0)" "j' < snd (shape m0)" by simp_all
      from sp(3)[OF this] m(4) that show ?thesis
        by (auto simp: accepted_at_def i_def j_def)
    qed
    ultimately show ?thesis using m(2) by blast
  next
    case False
    from Cons.IH[OF Cons.prems] obtain m
      where m: "mask_loop w h ps red patches m0 = Inr m" "well_shaped m"
        "shape m = shape m0"
        "\<forall>i'<h div ps. \<forall>j'<w div ps. getitem m i' j' =
            (if accepted_at ps red patches i' j' then 1 else getitem m0 i' j')"
      by blast
    have "mask_loop w h ps red (patch # patches) m0 = Inr m"
      using m(1) False assms(3) by (auto simp: i_def j_def Let_def)
    moreover have "getitem m i' j' = (if accepted_at ps red (patch # patches) i' j' then 1 else getitem m0 i' j')"
      if "i' < h div ps" "j' < w div ps" for i' j'
      using m(4) that False by (auto simp: accepted_at_def i_def j_def)
    ultimately show ?thesis using m(2,3) by blast
  qed
qed

lemma cell_floor:
  assumes "ds = of_nat (reduction ds)"
  shows "int (y div (ps * reduction ds)) = \<lfloor>of_nat y / (of_nat ps * ds)\<rfloor>"
proof -
  have "(of_nat ps * ds :: real) = of_nat (ps * reduction ds)"
    by (subst assms) simp
  then show ?thesis by (simp only: floor_divide_of_nat_eq)
qed

text \<open>
  Claim C5, as the code has it. With a positive \<^verbatim>\<open>patch_size\<close> (and a positive
  \<^verbatim>\<open>reduction\<close> when there is any accepted tile) the mask is built, with shape
  \<open>(h // patch_size, w // patch_size)\<close>; cell \<open>(i, j)\<close> is 1 exactly when some accepted
  \<open>(x, y)\<close> has \<open>y // (patch_size * reduction) = i\<close> and
  \<open>x // (patch_size * reduction) = j\<close>, and 0 otherwise. A coordinate whose cell is outside
  the grid changes nothing and raises nothing. With no accepted tile the mask is all zero.
  Here \<^verbatim>\<open>reduction\<close> is the integer part of the level-1 downsample factor; the cell is
  \<open>\<lfloor>y / (patch_size * downsample)\<rfloor>\<close> when the factor is a whole number.
\<close>

theorem mask_grid_cells:
  "(0 < patch_size \<and> (patches = [] \<or> 0 < reduction ds) \<longrightarrow>
      (\<exists>m. mask_grid w h patch_size ds patches = Inr m
          \<and> shape m = (h div patch_size, w div patch_size)
          \<and> well_shaped m
          \<and> (\<forall>i<h div patch_size. \<forall>j<w div patch_size.
                getitem m i j =
                  (if accepted_at patch_size (reduction ds) patches i j then 1 else 0))))
   \<and> (0 < patch_size \<and> 0 < reduction ds
        \<and> \<not> (snd patch div (patch_size * reduction ds) < h div patch_size
              \<and> fst patch div (patch_size * reduction ds) < w div patch_size) \<longrightarrow>
        mask_grid w h patch_size ds (patch # patches) = mask_grid w h patch_size ds patches)
   \<and> (0 < patch_size \<longrightarrow>
        mask_grid w h patch_size ds [] = Inr (zeros (h div patch_size, w div patch_size)))
   \<and> (ds = of_nat (reduction ds) \<longrightarrow>
        (\<forall>y. int (y div (patch_size * reduction ds)) = \<lfloor>of_nat y / (of_nat patch_size * ds)\<rfloor>))"
proof (intro conjI impI)
  assume a: "0 < patch_size \<and> (patches = [] \<or> 0 < reduction ds)"
  define m0 where "m0 = zeros (h div patch_size, w div patch_size)"
  have ws: "well_shaped m0" unfolding m0_def by (rule well_shaped_zeros)
  have sh: "shape m0 = (h div patch_size, w div patch_size)" by (simp add: m0_def zeros_def)
  have z: "getitem m0 i j = 0" if "i < h div patch_size" "j < w div patch_size" for i j
    using that getitem_zeros[of i "(h div patch_size, w div patch_size)" j] by (simp add: m0_def)
  from a have mg: "mask_grid w h patch_size ds patches
      = mask_loop w h patch_size (reduction ds) patches m0"
    by (simp add: mask_grid_def m0_def)
  show "\<exists>m. mask_grid w h patch_size ds patches = Inr m
          \<and> shape m = (h div patch_size, w div patch_size)
          \<and> well_shaped m
          \<and> (\<forall>i<h div patch_size. \<forall>j<w div patch_size.
                getitem m i j =
                  (if accepted_at patch_size (reduction ds) patches i j then 1 else 0))"
  proof (cases "patches = []")
    case True
    with mg ws sh z show ?thesis by (simp add: accepted_at_def)
  next
    case False
    with a have "0 < patch_size * reduction ds" by simp
    from mask_loop_cells[OF ws sh this, of patches] obtain m
      where "mask_loop w h patch_size (reduction ds) patches m0 = Inr m" "well_shaped m"
        "shape m = shape m0"
        "\<forall>i<h div patch_size. \<forall>j<w div patch_size. getitem m i j =
            (if accepted_at patch_size (reduction ds) patches i j then 1 else getitem m0 i j)"
      by blast
    with mg sh z show ?thesis by auto
  qed
next
  assume "0 < patch_size \<and> 0 < reduction ds
        \<and> \<not> (snd patch div (patch_size * reduction ds) < h div patch_size
              \<and> fst patch div (patch_size * reduction ds) < w div patch_size)"
  then show "mask_grid w h patch_size ds (patch # patches) = mask_grid w h patch_size ds patches"
    by (auto simp: mask_grid_def Let_def)
next
  assume "0 < patch_size"
  then show "mask_grid w h patch_size ds [] = Inr (zeros (h div patch_size, w div patch_size))"
    by (simp add: mask_grid_def)
next
  assume "ds = of_nat (reduction ds)"
  then show "\<forall>y. int (y div (patch_size * reduction ds)) = \<lfloor>of_nat y / (of_nat patch_size * ds)\<rfloor>"
    using cell_floor by blast
qed

lemma zeros_2_2: "zeros (2, 2) = \<lparr>shape = (2, 2), rows = [[0, 0], [0, 0]]\<rparr>"
  by (simp add: zeros_def numeral_2_eq_2)

lemma mask_example:
  "mask_grid 328 328 164 4 [(5000, 0), (0, 656)]
     = Inr \<lparr>shape = (2, 2), rows = [[0, 0], [1, 0]]\<rparr>"
  by (simp add: mask_grid_def reduction_def zeros_2_2 setitem_def)

theorem mask_grid_cells_witness:
  "(0 < (164::nat) \<and> ([(0, 656)] = ([]::coord list) \<or> 0 < reduction 4))
   \<and> (\<exists>m. mask_grid 328 328 164 4 [(0, 656)] = Inr m
          \<and> shape m = (328 div 164, 328 div 164)
          \<and> well_shaped m
          \<and> (\<forall>i<328 div 164. \<forall>j<328 div 164.
                getitem m i j = (if accepted_at 164 (reduction 4) [(0, 656)] i j then 1 else 0)))
   \<and> (0 < (164::nat) \<and> 0 < reduction 4
        \<and> \<not> (snd (5000::nat, 0::nat) div (164 * reduction 4) < 328 div 164
              \<and> fst (5000::nat, 0::nat) div (164 * reduction 4) < 328 div 164))
   \<and> mask_grid 328 328 164 4 ((5000, 0) # [(0, 656)]) = mask_grid 328 328 164 4 [(0, 656)]
   \<and> mask_grid 328 328 164 4 [] = Inr (zeros (328 div 164, 328 div 164))
   \<and> (4::real) = of_nat (reduction 4)
   \<and> (\<forall>y. int (y div (164 * reduction 4)) = \<lfloor>of_nat y / (of_nat 164 * (4::real))\<rfloor>)
   \<and> mask_grid 328 328 164 4 [(5000, 0), (0, 656)]
        = Inr \<lparr>shape = (2, 2), rows = [[0, 0], [1, 0]]\<rparr>"
proof -
  have r: "reduction 4 = 4" by (simp add: reduction_def)
  have h1: "0 < (164::nat) \<and> ([(0, 656)] = ([]::coord list) \<or> 0 < reduction 4)"
    by (simp add: r)
  have h2: "0 < (164::nat) \<and> 0 < reduction 4
        \<and> \<not> (snd (5000::nat, 0::nat) div (164 * reduction 4) < 328 div 164
              \<and> fst (5000::nat, 0::nat) div (164 * reduction 4) < 328 div 164)"
    by (simp add: r)
  have h3: "0 < (164::nat)" by simp
  have h4: "(4::real) = of_nat (reduction 4)" by (simp add: r)
  note c1 = mask_grid_cells[THEN conjunct1, THEN mp, OF h1, of 328 328]
  note c2 = mask_grid_cells[THEN conjunct2, THEN conjunct1, THEN mp, OF h2, of "[(0, 656)]"]
  note c3 = mask_grid_cells[THEN conjunct2, THEN conjunct2, THEN conjunct1, THEN mp, OF h3,
      of 328 328 4]
  note c4 = mask_grid_cells[THEN conjunct2, THEN conjunct2, THEN conjunct2, THEN mp, OF h4,
      of 164]
  show ?thesis
    by (rule conjI[OF h1 conjI[OF c1 conjI[OF h2 conjI[OF c2 conjI[OF c3 conjI[OF h4
          conjI[OF c4 mask_example]]]]]]])
qed

lemma zeros_6_6: "zeros (6, 6) = \<lparr>shape = (6, 6), rows =
   [[0, 0, 0, 0, 0, 0], [0, 0, 0, 0, 0, 0], [0, 0, 0, 0, 0, 0],
    [0, 0, 0, 0, 0, 0], [0, 0, 0, 0, 0, 0], [0, 0, 0, 0, 0, 0]]\<rparr>"
  by (simp add: zeros_def eval_nat_numeral)

text \<open>
  Claim C5, as it is written, for a downsample factor that is not a whole number: a slide
  of 4097 x 4097 pixels whose level 1 has 1024 x 1024 pixels, so that the level-1 downsample
  is 4097/1024 (about 4.001), and \<^verbatim>\<open>patch_size = 164\<close>. The accepted tile \<open>(0, 656)\<close>
  sets row 1 of the mask, and \<open>656 // (patch_size * downsample)\<close> is row 0.
\<close>

theorem mask_grid_cell_counterexample:
  "mask_grid 1024 1024 164 (4097 / 1024) [(0, 656)]
     = Inr \<lparr>shape = (6, 6), rows =
         [[0, 0, 0, 0, 0, 0], [1, 0, 0, 0, 0, 0], [0, 0, 0, 0, 0, 0],
          [0, 0, 0, 0, 0, 0], [0, 0, 0, 0, 0, 0], [0, 0, 0, 0, 0, 0]]\<rparr>
   \<and> \<lfloor>656 / (164 * (4097 / 1024 :: real))\<rfloor> = 0"
  by (simp add: mask_grid_def reduction_def zeros_6_6 setitem_def)

end
